theory Spec2Isabelle
  imports Main "HOL-Library.Multiset"
begin

section \<open>JavaScript values\<close>

text \<open>
  A JavaScript string is a sequence of UTF-16 code units. The regular expressions of
  \<^verbatim>\<open>src/index.tsx\<close> carry neither the \<^verbatim>\<open>u\<close> nor the \<^verbatim>\<open>i\<close> flag, so they
  match code unit by code unit. A code unit is modelled as a natural number (below 65536 in
  every string the program can hold); the theorems below hold for every list of numbers.
\<close>

type_synonym jsstring = "nat list"

definition units :: "string \<Rightarrow> jsstring" where
  "units s = map of_char s"

text \<open>
  A number that may be \<^verbatim>\<open>NaN\<close>: arithmetic on \<^verbatim>\<open>undefined\<close>, which an array read out of
  range yields, gives \<^verbatim>\<open>NaN\<close>. Timestamps are integers (milliseconds).
\<close>

datatype jsnum = Num int | NaN

fun jsle :: "jsnum \<Rightarrow> int \<Rightarrow> bool" where
  "jsle (Num a) b = (a \<le> b)"
| "jsle NaN b = False"

datatype error = SyntaxError | TypeError

section \<open>Data model (types)\<close>

record SavedWord =
  id' :: jsstring
  word :: jsstring
  translation :: jsstring
  context' :: jsstring
  definition' :: "jsstring option"
  synonyms :: "jsstring list option"
  timestamp :: int
  leitnerBox :: int
  nextReview :: jsnum

record QuizItem =
  wordQ :: jsstring
  question :: jsstring
  options :: "jsstring list"
  correctAnswerIndex :: int
  explanation :: jsstring
  synonymsQ :: "jsstring list option"

datatype QuestionType =
  TRUE_FALSE_NOT_GIVEN | YES_NO_NOT_GIVEN | MULTIPLE_CHOICE | MATCHING | GAP_FILL | CLASSIFICATION

record Question =
  idQn :: jsstring
  typeQn :: QuestionType
  textQn :: jsstring
  labelQn :: jsstring
  optionsQn :: "jsstring list option"

record Passage =
  idP :: int
  title :: jsstring
  content :: "jsstring list"
  questionsP :: "Question list"
  questionInstruction :: jsstring
  offlineQuiz :: "QuizItem list option"

section \<open>Spaced repetition (Leitner system)\<close>

definition REVIEW_INTERVALS :: "int list" where
  "REVIEW_INTERVALS = [0, 1, 3, 7, 14, 30]"

text \<open>
  \<^verbatim>\<open>getNextReviewDate\<close>; the first argument is the value of \<^verbatim>\<open>Date.now()\<close>. An index
  below 0 reads \<^verbatim>\<open>undefined\<close> from the table, and the sum is \<^verbatim>\<open>NaN\<close>.
\<close>

definition getNextReviewDate :: "int \<Rightarrow> int \<Rightarrow> jsnum" where
  "getNextReviewDate now box =
     (let i = min box (int (length REVIEW_INTERVALS) - 1)
      in if 0 \<le> i \<and> i < int (length REVIEW_INTERVALS)
         then Num (now + (REVIEW_INTERVALS ! nat i) * 24 * 60 * 60 * 1000)
         else NaN)"

text \<open>The body of the callback that \<^verbatim>\<open>handleUpdateWordProgress\<close> maps over the store.\<close>

definition updateWord :: "int \<Rightarrow> jsstring \<Rightarrow> bool \<Rightarrow> SavedWord \<Rightarrow> SavedWord" where
  "updateWord now i success w =
     (if id' w \<noteq> i then w
      else let newBox = (if success
                         then min (leitnerBox w + 1) (int (length REVIEW_INTERVALS) - 1)
                         else 0)
           in w\<lparr>leitnerBox := newBox, nextReview := getNextReviewDate now newBox\<rparr>)"

definition handleUpdateWordProgress ::
    "int \<Rightarrow> jsstring \<Rightarrow> bool \<Rightarrow> SavedWord list \<Rightarrow> SavedWord list" where
  "handleUpdateWordProgress now i success prev = map (updateWord now i success) prev"

text \<open>
  The scheduler as the specification words it, a function of box, outcome and current time:
  the entry of the interval table for the box (the last one from box 5 on), the new box
  \<open>min (box + 1) 5\<close> on success and 0 on failure, and the next review the interval of
  the new box, in milliseconds, after now.
\<close>

definition intervalDays :: "int \<Rightarrow> int" where
  "intervalDays b = [0, 1, 3, 7, 14, 30] ! nat (min b 5)"

definition recordOutcome :: "int \<Rightarrow> bool \<Rightarrow> int \<Rightarrow> int \<times> int" where
  "recordOutcome b success now =
     (let newBox = (if success then min (b + 1) 5 else 0)
      in (newBox, now + intervalDays newBox * 24 * 60 * 60 * 1000))"

section \<open>Text processing\<close>

text \<open>
  The code units that \<^verbatim>\<open>\s\<close> matches and \<^verbatim>\<open>trim\<close> removes: the white space and
  line terminators of ECMAScript (tab to carriage return, space, no-break space, U+1680,
  U+2000 to U+200A, U+2028, U+2029, U+202F, U+205F, U+3000, U+FEFF).
\<close>

definition isWhiteSpace :: "nat \<Rightarrow> bool" where
  "isWhiteSpace c \<longleftrightarrow>
     (9 \<le> c \<and> c \<le> 13) \<or> c = 32 \<or> c = 160 \<or> c = 0x1680 \<or> (0x2000 \<le> c \<and> c \<le> 0x200A)
     \<or> c = 0x2028 \<or> c = 0x2029 \<or> c = 0x202F \<or> c = 0x205F \<or> c = 0x3000 \<or> c = 0xFEFF"

definition trim :: "jsstring \<Rightarrow> jsstring" where
  "trim s = rev (dropWhile isWhiteSpace (rev (dropWhile isWhiteSpace s)))"

text \<open>
  \<^verbatim>\<open>text.split(/(\s+)/)\<close>: the pieces between the maximal runs of white space, with each
  run (the capture group) spliced in between. A string that starts or ends with white space
  gets an empty first or last piece, and the empty string splits into one empty piece.
\<close>

function split_ws :: "jsstring \<Rightarrow> jsstring list" where
  "split_ws s =
     (if dropWhile (\<lambda>c. \<not> isWhiteSpace c) s = [] then [s]
      else takeWhile (\<lambda>c. \<not> isWhiteSpace c) s
           # takeWhile isWhiteSpace (dropWhile (\<lambda>c. \<not> isWhiteSpace c) s)
           # split_ws (dropWhile isWhiteSpace (dropWhile (\<lambda>c. \<not> isWhiteSpace c) s)))"
  by pat_completeness auto

lemma dropWhile_ws_shorter:
  assumes "dropWhile (\<lambda>c. \<not> isWhiteSpace c) s \<noteq> []"
  shows "length (dropWhile isWhiteSpace (dropWhile (\<lambda>c. \<not> isWhiteSpace c) s)) < length s"
proof -
  let ?r = "dropWhile (\<lambda>c. \<not> isWhiteSpace c) s"
  from assms obtain c cs where r: "?r = c # cs"
    by (cases ?r) auto
  then have "isWhiteSpace c"
    using hd_dropWhile [of "\<lambda>c. \<not> isWhiteSpace c" s] assms by auto
  then have "length (dropWhile isWhiteSpace ?r) \<le> length cs"
    using r by (simp add: length_dropWhile_le)
  moreover have "length ?r \<le> length s"
    by (rule length_dropWhile_le)
  ultimately show ?thesis
    using r by simp
qed

termination split_ws
  by (relation "measure length") (simp_all add: dropWhile_ws_shorter)

declare split_ws.simps [simp del]

text \<open>
  \<^verbatim>\<open>toLowerCase\<close>, code unit by code unit. The model covers the scripts the application
  handles (Basic Latin, Latin-1 and Cyrillic) and the two code units outside them whose lower
  case holds a letter of \<^verbatim>\<open>\w\<close>: U+0130 (capital I with dot above, lower case \<open>i\<close> and
  U+0307) and U+212A (the Kelvin sign, lower case \<open>k\<close>). Every other code unit is left as
  it is, so the cased letters of other scripts are outside the model.
\<close>

definition lowerUnit :: "nat \<Rightarrow> nat list" where
  "lowerUnit c =
     (if 0x41 \<le> c \<and> c \<le> 0x5A then [c + 32]
      else if 0xC0 \<le> c \<and> c \<le> 0xDE \<and> c \<noteq> 0xD7 then [c + 32]
      else if 0x400 \<le> c \<and> c \<le> 0x40F then [c + 80]
      else if 0x410 \<le> c \<and> c \<le> 0x42F then [c + 32]
      else if c = 0x130 then [0x69, 0x307]
      else if c = 0x212A then [0x6B]
      else [c])"

definition toLowerCase :: "jsstring \<Rightarrow> jsstring" where
  "toLowerCase s = concat (map lowerUnit s)"

text \<open>
  The first \<^verbatim>\<open>replace\<close>: an apostrophe (U+0027) or a right single quotation mark
  (U+2019) followed by \<open>s\<close> (U+0073) at the end of the string. The pattern is anchored at
  the end, so it can match the last two code units only.
\<close>

definition endsPossessive :: "jsstring \<Rightarrow> bool" where
  "endsPossessive s \<longleftrightarrow>
     2 \<le> length s \<and> (s ! (length s - 2) = 0x27 \<or> s ! (length s - 2) = 0x2019)
     \<and> s ! (length s - 1) = 0x73"

definition replacePossessive :: "jsstring \<Rightarrow> jsstring" where
  "replacePossessive s = (if endsPossessive s then take (length s - 2) s else s)"

text \<open>
  The character class of the second \<^verbatim>\<open>replace\<close> is the complement of \<^verbatim>\<open>\w\<close> (letters
  \<open>A-Z\<close> and \<open>a-z\<close>, digits, underscore) and the Cyrillic ranges U+0410 to U+042F and
  U+0430 to U+044F. The pattern is global with two alternatives, a run of the class at the
  start and a run of the class at the end: it removes the longest such run at the start and,
  from what is left, the longest one at the end.
\<close>

definition isWordChar :: "nat \<Rightarrow> bool" where
  "isWordChar c \<longleftrightarrow>
     (0x30 \<le> c \<and> c \<le> 0x39) \<or> (0x41 \<le> c \<and> c \<le> 0x5A) \<or> c = 0x5F \<or> (0x61 \<le> c \<and> c \<le> 0x7A)
     \<or> (0x410 \<le> c \<and> c \<le> 0x42F) \<or> (0x430 \<le> c \<and> c \<le> 0x44F)"

definition replaceOuter :: "jsstring \<Rightarrow> jsstring" where
  "replaceOuter s =
     rev (dropWhile (\<lambda>c. \<not> isWordChar c) (rev (dropWhile (\<lambda>c. \<not> isWordChar c) s)))"

text \<open>
  The expression bound to \<^verbatim>\<open>cleanWord\<close>, in the tokenizer and again in the modal. Here
  and below the argument \<open>lower\<close> stands for the built-in \<^verbatim>\<open>String.prototype.toLowerCase\<close>.
\<close>

definition cleanWord :: "(jsstring \<Rightarrow> jsstring) \<Rightarrow> jsstring \<Rightarrow> jsstring" where
  "cleanWord lower segment = replaceOuter (replacePossessive (lower segment))"

record Segment =
  textS :: jsstring
  idS :: nat
  isWord :: bool
  wordS :: "jsstring option"

definition toSegment :: "(jsstring \<Rightarrow> jsstring) \<Rightarrow> jsstring \<Rightarrow> nat \<Rightarrow> Segment" where
  "toSegment lower segment i =
     (if trim segment = [] then \<lparr>textS = segment, idS = i, isWord = False, wordS = None\<rparr>
      else \<lparr>textS = segment, idS = i, isWord = True, wordS = Some (cleanWord lower segment)\<rparr>)"

definition splitParagraphIntoWords :: "(jsstring \<Rightarrow> jsstring) \<Rightarrow> jsstring \<Rightarrow> Segment list" where
  "splitParagraphIntoWords lower text =
     map (\<lambda>(i, segment). toSegment lower segment i) (enumerate 0 (split_ws text))"

section \<open>Vocabulary store\<close>

text \<open>The updater that \<^verbatim>\<open>handleSaveWord\<close> passes to \<^verbatim>\<open>setSavedWords\<close>.\<close>

definition handleSaveWord ::
    "(jsstring \<Rightarrow> jsstring) \<Rightarrow> SavedWord \<Rightarrow> SavedWord list \<Rightarrow> SavedWord list" where
  "handleSaveWord lower newWord prev =
     (if list_ex (\<lambda>w. lower (word w) = lower (word newWord)) prev then prev
      else prev @ [newWord])"

definition onDeleteWord :: "jsstring \<Rightarrow> SavedWord list \<Rightarrow> SavedWord list" where
  "onDeleteWord i prev = filter (\<lambda>w. id' w \<noteq> i) prev"

text \<open>
  The stores the application can hold: it starts from the empty list (nothing stored yet)
  and changes through the three updaters only.
\<close>

inductive reachableStore :: "(jsstring \<Rightarrow> jsstring) \<Rightarrow> SavedWord list \<Rightarrow> bool"
  for lower :: "jsstring \<Rightarrow> jsstring" where
  empty: "reachableStore lower []"
| save: "reachableStore lower st \<Longrightarrow> reachableStore lower (handleSaveWord lower w st)"
| progress: "reachableStore lower st
             \<Longrightarrow> reachableStore lower (handleUpdateWordProgress now i success st)"
| delete: "reachableStore lower st \<Longrightarrow> reachableStore lower (onDeleteWord i st)"

section \<open>Vocabulary view\<close>

record VocabularyView =
  isQuizMode :: bool
  quizWords :: "SavedWord list"
  currentIdx :: nat
  showBack :: bool

text \<open>\<^verbatim>\<open>words.filter((w) => w.nextReview <= Date.now())\<close>, shown as a count in the header.\<close>

definition due :: "int \<Rightarrow> SavedWord list \<Rightarrow> SavedWord list" where
  "due now words = filter (\<lambda>w. jsle (nextReview w) now) words"

text \<open>
  The START REVIEW button, disabled on an empty store. \<open>shuffle\<close> stands for
  \<^verbatim>\<open>[...words].sort(() => 0.5 - Math.random())\<close>, which returns some permutation of its
  argument.
\<close>

definition startReview ::
    "(SavedWord list \<Rightarrow> SavedWord list) \<Rightarrow> SavedWord list \<Rightarrow> VocabularyView \<Rightarrow> VocabularyView" where
  "startReview shuffle words v =
     (if words = [] then v else v\<lparr>quizWords := shuffle words, isQuizMode := True\<rparr>)"

text \<open>The card on screen in review mode; none once the session is complete.\<close>

definition card :: "VocabularyView \<Rightarrow> SavedWord option" where
  "card v = (if currentIdx v \<ge> length (quizWords v) then None
             else Some (quizWords v ! currentIdx v))"

section \<open>Reading view and translation modal\<close>

record DictEntry =
  tE :: jsstring
  dE :: jsstring
  sE :: "jsstring list"

text \<open>
  A click on a segment: \<^verbatim>\<open>item.isWord && setSelectedWordData({word: item.word, context:
  paragraph})\<close>.
\<close>

definition clickSegment :: "Segment \<Rightarrow> jsstring \<Rightarrow> (jsstring \<times> jsstring) option" where
  "clickSegment item paragraph =
     (if isWord item then (case wordS item of Some w \<Rightarrow> Some (w, paragraph) | None \<Rightarrow> None)
      else None)"

text \<open>
  \<^verbatim>\<open>data\<close> of the modal: the dictionary entry of the cleaned word or the fallback. The
  dictionary (\<^verbatim>\<open>LOCAL_DICTIONARY\<close> of \<^verbatim>\<open>constants\<close>) is a parameter. The fallback
  translation is the Russian for "Translation for", a space, and the word in double quotes.
\<close>

definition fallbackTranslation :: "jsstring \<Rightarrow> jsstring" where
  "fallbackTranslation w =
     [0x41F, 0x435, 0x440, 0x435, 0x432, 0x43E, 0x434, 0x20, 0x434, 0x43B, 0x44F, 0x20, 0x22]
     @ w @ [0x22]"

definition modalData ::
    "(jsstring \<Rightarrow> jsstring) \<Rightarrow> (jsstring \<rightharpoonup> DictEntry) \<Rightarrow> jsstring
       \<Rightarrow> jsstring \<times> jsstring \<times> jsstring list" where
  "modalData lower dict w =
     (case dict (cleanWord lower w) of
        Some entry \<Rightarrow> (tE entry, dE entry, sE entry)
      | None \<Rightarrow> (fallbackTranslation w, units ''Tap to save and review later.'', []))"

text \<open>
  The object that the "Add to My Dictionary" button passes to \<^verbatim>\<open>onSave\<close>. \<open>uuid\<close> is
  the value of \<^verbatim>\<open>crypto.randomUUID()\<close>, \<open>now1\<close> and \<open>now2\<close> the two readings of
  \<^verbatim>\<open>Date.now()\<close>.
\<close>

definition newSavedWord ::
    "(jsstring \<Rightarrow> jsstring) \<Rightarrow> (jsstring \<rightharpoonup> DictEntry) \<Rightarrow> jsstring \<Rightarrow> int \<Rightarrow> int
       \<Rightarrow> jsstring \<Rightarrow> jsstring \<Rightarrow> SavedWord" where
  "newSavedWord lower dict uuid now1 now2 w ctx =
     (case modalData lower dict w of
        (tr, df, sy) \<Rightarrow>
          \<lparr>id' = uuid, word = cleanWord lower w, translation = tr, context' = ctx,
           definition' = Some df, synonyms = Some sy, timestamp = now1, leitnerBox = 0,
           nextReview = Num now2\<rparr>)"

section \<open>Quiz view\<close>

datatype Stage = SETUP | LOADING | PLAYING | RESULT

text \<open>
  The state of \<^verbatim>\<open>QuizView\<close>. \<open>autoNextTimeoutRef\<close> tells whether the timer that
  \<^verbatim>\<open>handleSelectAnswer\<close> sets is pending, \<open>startTimeout\<close> whether the one that
  \<^verbatim>\<open>generateQuiz\<close> sets is.
\<close>

record QuizView =
  stage :: Stage
  selectedPassageId :: int
  questions :: "QuizItem list"
  currentQIndex :: int
  score :: int
  selectedOption :: "int option"
  isAnswered :: bool
  autoNextTimeoutRef :: bool
  startTimeout :: bool

text \<open>
  \<^verbatim>\<open>generateQuiz\<close>, up to the timer it sets. \<open>shuffle\<close> stands for the sort with a
  random comparator.
\<close>

definition generateQuiz ::
    "(QuizItem list \<Rightarrow> QuizItem list) \<Rightarrow> Passage list \<Rightarrow> QuizView \<Rightarrow> QuizView" where
  "generateQuiz shuffle passages v =
     (case find (\<lambda>p. idP p = selectedPassageId v) passages of
        None \<Rightarrow> v
      | Some passage \<Rightarrow>
          (case offlineQuiz passage of
             None \<Rightarrow> v\<lparr>stage := LOADING\<rparr>
           | Some quiz \<Rightarrow> v\<lparr>stage := LOADING, questions := shuffle quiz, startTimeout := True\<rparr>))"

text \<open>The callback of the timer of \<^verbatim>\<open>generateQuiz\<close>, 500 ms later.\<close>

definition startTimeoutFired :: "QuizView \<Rightarrow> QuizView" where
  "startTimeoutFired v =
     (if startTimeout v
      then v\<lparr>startTimeout := False, stage := PLAYING, currentQIndex := 0, score := 0,
             selectedOption := None, isAnswered := False\<rparr>
      else v)"

definition nextQuestion :: "QuizView \<Rightarrow> QuizView" where
  "nextQuestion v =
     (if currentQIndex v < int (length (questions v)) - 1
      then v\<lparr>autoNextTimeoutRef := False, currentQIndex := currentQIndex v + 1,
             selectedOption := None, isAnswered := False\<rparr>
      else v\<lparr>autoNextTimeoutRef := False, stage := RESULT\<rparr>)"

text \<open>
  \<^verbatim>\<open>handleSelectAnswer\<close>. Reading \<^verbatim>\<open>correctAnswerIndex\<close> of a question out of range (of
  \<^verbatim>\<open>undefined\<close>) throws a \<^verbatim>\<open>TypeError\<close>.
\<close>

definition handleSelectAnswer :: "int \<Rightarrow> QuizView \<Rightarrow> error + QuizView" where
  "handleSelectAnswer idx v =
     (if isAnswered v then Inr v
      else if 0 \<le> currentQIndex v \<and> currentQIndex v < int (length (questions v))
      then Inr (v\<lparr>selectedOption := Some idx, isAnswered := True,
                  score := (if idx = correctAnswerIndex (questions v ! nat (currentQIndex v))
                            then score v + 1 else score v),
                  autoNextTimeoutRef := True\<rparr>)
      else Inl TypeError)"

text \<open>
  The quiz sessions over a question list: the state in which the start timer leaves the view,
  and every state that answers and advances (the Next button or the timer of an answer) lead
  to from it while the stage is \<open>PLAYING\<close>. The second argument counts the answers
  accepted so far.
\<close>

inductive session :: "QuizView \<Rightarrow> nat \<Rightarrow> bool" where
  start: "startTimeout v \<Longrightarrow> session (startTimeoutFired v) 0"
| answer: "session v n \<Longrightarrow> stage v = PLAYING \<Longrightarrow> handleSelectAnswer idx v = Inr v'
           \<Longrightarrow> session v' (if isAnswered v then n else Suc n)"
| advance: "session v n \<Longrightarrow> stage v = PLAYING \<Longrightarrow> session (nextQuestion v) n"

text \<open>
  A sequence of user actions run on the view. The option buttons and the Next button are
  rendered in stage \<open>PLAYING\<close> only; an exception ends the run.
\<close>

datatype QuizAction = Answer int | Advance

fun act :: "QuizAction \<Rightarrow> QuizView \<Rightarrow> error + QuizView" where
  "act (Answer idx) v = (if stage v = PLAYING then handleSelectAnswer idx v else Inr v)"
| "act Advance v = (if stage v = PLAYING then Inr (nextQuestion v) else Inr v)"

fun run :: "QuizAction list \<Rightarrow> QuizView \<Rightarrow> error + QuizView" where
  "run [] v = Inr v"
| "run (a # as) v = (case act a v of Inl e \<Rightarrow> Inl e | Inr v' \<Rightarrow> run as v')"

section \<open>Persistence\<close>

text \<open>
  A model of \<^verbatim>\<open>JSON.parse\<close> (the JSON grammar of ECMA-404): a lexer and a push-down
  automaton over its tokens. A number keeps its literal text and an object its members in
  source order. Every failure is the \<^verbatim>\<open>SyntaxError\<close> that \<^verbatim>\<open>JSON.parse\<close> throws.
\<close>

datatype json =
  JNull | JBool bool | JNumber jsstring | JString jsstring
  | JArray "json list" | JObject "(jsstring \<times> json) list"

datatype token =
  TLBrace | TRBrace | TLBracket | TRBracket | TColon | TComma
  | TStr jsstring | TNum jsstring | TTrue | TFalse | TNull

definition isJsonWs :: "nat \<Rightarrow> bool" where
  "isJsonWs c \<longleftrightarrow> c = 0x20 \<or> c = 0x09 \<or> c = 0x0A \<or> c = 0x0D"

definition isDigit :: "nat \<Rightarrow> bool" where
  "isDigit c \<longleftrightarrow> 0x30 \<le> c \<and> c \<le> 0x39"

definition isNumChar :: "nat \<Rightarrow> bool" where
  "isNumChar c \<longleftrightarrow> isDigit c \<or> c = 0x2B \<or> c = 0x2D \<or> c = 0x2E \<or> c = 0x45 \<or> c = 0x65"

definition isLowerLetter :: "nat \<Rightarrow> bool" where
  "isLowerLetter c \<longleftrightarrow> 0x61 \<le> c \<and> c \<le> 0x7A"

definition hexVal :: "nat \<Rightarrow> nat option" where
  "hexVal c =
     (if 0x30 \<le> c \<and> c \<le> 0x39 then Some (c - 0x30)
      else if 0x41 \<le> c \<and> c \<le> 0x46 then Some (c - 55)
      else if 0x61 \<le> c \<and> c \<le> 0x66 then Some (c - 87)
      else None)"

fun hex4 :: "jsstring \<Rightarrow> nat option" where
  "hex4 (a # b # c # d # _) =
     (case (hexVal a, hexVal b, hexVal c, hexVal d) of
        (Some w, Some x, Some y, Some z) \<Rightarrow> Some (((w * 16 + x) * 16 + y) * 16 + z)
      | _ \<Rightarrow> None)"
| "hex4 _ = None"

definition escape :: "nat \<Rightarrow> nat option" where
  "escape e =
     (if e = 0x22 \<or> e = 0x5C \<or> e = 0x2F then Some e
      else if e = 0x62 then Some 0x08
      else if e = 0x66 then Some 0x0C
      else if e = 0x6E then Some 0x0A
      else if e = 0x72 then Some 0x0D
      else if e = 0x74 then Some 0x09
      else None)"

text \<open>
  The rest of a string literal after its opening quote: the decoded string and the input
  after the closing quote.
\<close>

fun lexString :: "jsstring \<Rightarrow> jsstring \<Rightarrow> (jsstring \<times> jsstring) option" where
  "lexString acc [] = None"
| "lexString acc (c # cs) =
     (if c = 0x22 then Some (rev acc, cs)
      else if c = 0x5C then
        (case cs of
           [] \<Rightarrow> None
         | e # cs' \<Rightarrow>
             if e = 0x75
             then (case hex4 cs' of None \<Rightarrow> None | Some u \<Rightarrow> lexString (u # acc) (drop 4 cs'))
             else (case escape e of None \<Rightarrow> None | Some d \<Rightarrow> lexString (d # acc) cs'))
      else if c < 0x20 then None
      else lexString (c # acc) cs)"

text \<open>
  The number grammar: an optional minus, an integer part without a leading zero, an optional
  fraction, an optional exponent.
\<close>

definition isExponent :: "jsstring \<Rightarrow> bool" where
  "isExponent r =
     (case r of
        [] \<Rightarrow> True
      | c # r' \<Rightarrow>
          (c = 0x65 \<or> c = 0x45)
          \<and> (case r' of
                [] \<Rightarrow> False
              | x # t \<Rightarrow> if x = 0x2B \<or> x = 0x2D then t \<noteq> [] \<and> list_all isDigit t
                         else list_all isDigit r'))"

definition isFractionExponent :: "jsstring \<Rightarrow> bool" where
  "isFractionExponent r =
     (case r of
        [] \<Rightarrow> True
      | c # r' \<Rightarrow>
          if c = 0x2E then takeWhile isDigit r' \<noteq> [] \<and> isExponent (dropWhile isDigit r')
          else isExponent r)"

definition isUnsigned :: "jsstring \<Rightarrow> bool" where
  "isUnsigned s =
     (case takeWhile isDigit s of
        [] \<Rightarrow> False
      | d # ds \<Rightarrow> (if d = 0x30 then ds = [] else True)
                 \<and> isFractionExponent (dropWhile isDigit s))"

definition isNumberLit :: "jsstring \<Rightarrow> bool" where
  "isNumberLit s = (case s of [] \<Rightarrow> False | c # r \<Rightarrow> if c = 0x2D then isUnsigned r else isUnsigned s)"

definition keyword :: "jsstring \<Rightarrow> token option" where
  "keyword w =
     (if w = units ''true'' then Some TTrue
      else if w = units ''false'' then Some TFalse
      else if w = units ''null'' then Some TNull
      else None)"

lemma lexString_shorter: "lexString acc cs = Some (str, rest) \<Longrightarrow> length rest < Suc (length cs)"
proof (induction acc cs rule: lexString.induct)
  case (1 acc)
  then show ?case by simp
next
  case (2 acc c cs)
  show ?case
  proof (cases "c = 0x22")
    case True
    with "2.prems" show ?thesis by simp
  next
    case q: False
    show ?thesis
    proof (cases "c = 0x5C")
      case True
      with q "2.prems" obtain e cs' where cs: "cs = e # cs'"
        by (cases cs) auto
      show ?thesis
      proof (cases "e = 0x75")
        case u: True
        with q True cs "2.prems" obtain v where h: "hex4 cs' = Some v"
          and r: "lexString (v # acc) (drop 4 cs') = Some (str, rest)"
          by (auto split: option.splits)
        from "2.IH"(1) [OF q True cs u h r] have "length rest < Suc (length (drop 4 cs'))" .
        then show ?thesis using cs by simp
      next
        case nu: False
        with q True cs "2.prems" obtain d where h: "escape e = Some d"
          and r: "lexString (d # acc) cs' = Some (str, rest)"
          by (auto split: option.splits)
        from "2.IH"(2) [OF q True cs nu h r] show ?thesis using cs by simp
      qed
    next
      case False
      with q "2.prems" have c: "\<not> c < 0x20" and r: "lexString (c # acc) cs = Some (str, rest)"
        by (auto split: if_splits)
      from "2.IH"(3) [OF q False c r] show ?thesis by simp
    qed
  qed
qed

function lex :: "jsstring \<Rightarrow> token list option" where
  "lex [] = Some []"
| "lex (c # cs) =
     (if isJsonWs c then lex cs
      else if c = 0x7B then map_option (Cons TLBrace) (lex cs)
      else if c = 0x7D then map_option (Cons TRBrace) (lex cs)
      else if c = 0x5B then map_option (Cons TLBracket) (lex cs)
      else if c = 0x5D then map_option (Cons TRBracket) (lex cs)
      else if c = 0x3A then map_option (Cons TColon) (lex cs)
      else if c = 0x2C then map_option (Cons TComma) (lex cs)
      else if c = 0x22 then
        (case lexString [] cs of
           None \<Rightarrow> None
         | Some (str, rest) \<Rightarrow> map_option (Cons (TStr str)) (lex rest))
      else if c = 0x2D \<or> isDigit c then
        (if isNumberLit (c # takeWhile isNumChar cs)
         then map_option (Cons (TNum (c # takeWhile isNumChar cs))) (lex (dropWhile isNumChar cs))
         else None)
      else if isLowerLetter c then
        (case keyword (c # takeWhile isLowerLetter cs) of
           None \<Rightarrow> None
         | Some t \<Rightarrow> map_option (Cons t) (lex (dropWhile isLowerLetter cs)))
      else None)"
  by pat_completeness auto

termination lex
  by (relation "measure length")
    (auto simp: less_Suc_eq_le length_dropWhile_le dest: lexString_shorter)

declare lex.simps [simp del]

text \<open>
  The automaton. A frame is an array with its elements so far, an object with its members so
  far, or an object with a key that waits for its value (all in reverse order).
\<close>

datatype frame =
  FArr "json list" | FObj "(jsstring \<times> json) list" | FKey "(jsstring \<times> json) list" jsstring

datatype pstate =
  PValue "frame list" | PArrFirst "frame list" | PObjFirst "frame list" | PKey "frame list"
  | PColon "frame list" | PAfter "frame list" | PDone json

fun deliver :: "json \<Rightarrow> frame list \<Rightarrow> pstate option" where
  "deliver v [] = Some (PDone v)"
| "deliver v (FArr es # st) = Some (PAfter (FArr (v # es) # st))"
| "deliver v (FKey ms k # st) = Some (PAfter (FObj ((k, v) # ms) # st))"
| "deliver v (FObj ms # st) = None"

fun closeArray :: "frame list \<Rightarrow> pstate option" where
  "closeArray (FArr es # st) = deliver (JArray (rev es)) st"
| "closeArray _ = None"

fun closeObject :: "frame list \<Rightarrow> pstate option" where
  "closeObject (FObj ms # st) = deliver (JObject (rev ms)) st"
| "closeObject _ = None"

fun openKey :: "jsstring \<Rightarrow> frame list \<Rightarrow> pstate option" where
  "openKey k (FObj ms # st) = Some (PColon (FKey ms k # st))"
| "openKey k _ = None"

fun startValue :: "frame list \<Rightarrow> token \<Rightarrow> pstate option" where
  "startValue st (TStr s) = deliver (JString s) st"
| "startValue st (TNum n) = deliver (JNumber n) st"
| "startValue st TTrue = deliver (JBool True) st"
| "startValue st TFalse = deliver (JBool False) st"
| "startValue st TNull = deliver JNull st"
| "startValue st TLBracket = Some (PArrFirst (FArr [] # st))"
| "startValue st TLBrace = Some (PObjFirst (FObj [] # st))"
| "startValue st _ = None"

fun afterValue :: "frame list \<Rightarrow> token \<Rightarrow> pstate option" where
  "afterValue (FArr es # st) TComma = Some (PValue (FArr es # st))"
| "afterValue (FObj ms # st) TComma = Some (PKey (FObj ms # st))"
| "afterValue st TRBracket = closeArray st"
| "afterValue st TRBrace = closeObject st"
| "afterValue st _ = None"

fun step :: "pstate \<Rightarrow> token \<Rightarrow> pstate option" where
  "step (PValue st) t = startValue st t"
| "step (PArrFirst st) t = (if t = TRBracket then closeArray st else startValue st t)"
| "step (PObjFirst st) t =
     (if t = TRBrace then closeObject st
      else (case t of TStr k \<Rightarrow> openKey k st | _ \<Rightarrow> None))"
| "step (PKey st) t = (case t of TStr k \<Rightarrow> openKey k st | _ \<Rightarrow> None)"
| "step (PColon st) t = (if t = TColon then Some (PValue st) else None)"
| "step (PAfter st) t = afterValue st t"
| "step (PDone v) t = None"

fun runTokens :: "pstate \<Rightarrow> token list \<Rightarrow> pstate option" where
  "runTokens p [] = Some p"
| "runTokens p (t # ts) = (case step p t of None \<Rightarrow> None | Some p' \<Rightarrow> runTokens p' ts)"

definition JSON_parse :: "jsstring \<Rightarrow> error + json" where
  "JSON_parse s =
     (case lex s of
        None \<Rightarrow> Inl SyntaxError
      | Some ts \<Rightarrow>
          (case runTokens (PValue []) ts of
             Some (PDone v) \<Rightarrow> Inr v
           | _ \<Rightarrow> Inl SyntaxError))"

text \<open>
  The initializer of the \<^verbatim>\<open>savedWords\<close> state: the argument is the value of
  \<^verbatim>\<open>localStorage.getItem('ielts_vocab_words')\<close>, \<open>None\<close> for \<^verbatim>\<open>null\<close>. The null value and
  the empty string are falsy. The result of \<^verbatim>\<open>JSON.parse\<close> is taken as the list without a
  check, and its exception is not caught.
\<close>

definition initialSavedWords :: "jsstring option \<Rightarrow> error + json" where
  "initialSavedWords saved =
     (case saved of
        None \<Rightarrow> Inr (JArray [])
      | Some s \<Rightarrow> if s = [] then Inr (JArray []) else JSON_parse s)"

section \<open>Scheduler: outcome of a review\<close>

lemma getNextReviewDate_in_table:
  assumes "0 \<le> b"
  shows "getNextReviewDate now b = Num (now + intervalDays b * 24 * 60 * 60 * 1000)"
proof -
  have len: "int (length REVIEW_INTERVALS) - 1 = 5"
    by (simp add: REVIEW_INTERVALS_def)
  have "0 \<le> min b 5" and "min b 5 < int (length REVIEW_INTERVALS)"
    using assms by (simp_all add: REVIEW_INTERVALS_def)
  then show ?thesis
    unfolding getNextReviewDate_def len Let_def intervalDays_def
    by (simp add: REVIEW_INTERVALS_def)
qed

text \<open>
  Claim C1. For a saved word with box \<open>b\<close> in \<open>[0, 5]\<close>, \<^verbatim>\<open>handleUpdateWordProgress\<close>
  sets the box to \<open>min (b + 1) 5\<close> on success and to 0 on failure, and the next review to
  \<open>now + intervalDays newBox * 24 * 60 * 60 * 1000\<close>, where \<open>intervalDays\<close> reads the table
  \<open>[0, 1, 3, 7, 14, 30]\<close> clamped to its last entry; the new box lies in \<open>[0, 5]\<close>. The
  words before and after it in the store are mapped on their own. \<^verbatim>\<open>getNextReviewDate\<close>
  adds the interval of \<open>intervalDays\<close> for every box from 0 on, and from box 5 on that is
  the last entry of the table, 30 days.
\<close>

theorem recordOutcome_box_and_date:
  assumes "0 \<le> leitnerBox w" and "leitnerBox w \<le> 5" and "id' w = i"
  shows "handleUpdateWordProgress now i success (xs @ w # ys) =
           handleUpdateWordProgress now i success xs
           @ w\<lparr>leitnerBox := fst (recordOutcome (leitnerBox w) success now),
                nextReview := Num (snd (recordOutcome (leitnerBox w) success now))\<rparr>
           # handleUpdateWordProgress now i success ys
         \<and> 0 \<le> fst (recordOutcome (leitnerBox w) success now)
         \<and> fst (recordOutcome (leitnerBox w) success now) \<le> 5
         \<and> (\<forall>b \<ge> 0. getNextReviewDate now b = Num (now + intervalDays b * 24 * 60 * 60 * 1000))
         \<and> (\<forall>b \<ge> 5. intervalDays b = 30)"
proof -
  let ?nb = "if success then min (leitnerBox w + 1) 5 else 0"
  have range: "0 \<le> ?nb \<and> ?nb \<le> 5"
    using assms(1,2) by simp
  have len: "int (length REVIEW_INTERVALS) - 1 = 5"
    by (simp add: REVIEW_INTERVALS_def)
  have date: "getNextReviewDate now ?nb = Num (now + intervalDays ?nb * 24 * 60 * 60 * 1000)"
    using range by (intro getNextReviewDate_in_table) simp
  have one: "updateWord now i success w =
           w\<lparr>leitnerBox := ?nb, nextReview := Num (now + intervalDays ?nb * 24 * 60 * 60 * 1000)\<rparr>"
    using date assms(3) unfolding updateWord_def len Let_def by simp
  have spec: "recordOutcome (leitnerBox w) success now
                = (?nb, now + intervalDays ?nb * 24 * 60 * 60 * 1000)"
    by (simp add: recordOutcome_def Let_def)
  have clamp: "\<forall>b \<ge> 5. intervalDays b = 30"
    by (simp add: intervalDays_def)
  have table: "\<forall>b \<ge> 0. getNextReviewDate now b = Num (now + intervalDays b * 24 * 60 * 60 * 1000)"
    by (simp add: getNextReviewDate_in_table)
  have store: "handleUpdateWordProgress now i success (xs @ w # ys) =
           handleUpdateWordProgress now i success xs
           @ updateWord now i success w # handleUpdateWordProgress now i success ys"
    by (simp add: handleUpdateWordProgress_def)
  show ?thesis
    unfolding spec fst_conv snd_conv store one
    using range clamp table by blast
qed

theorem recordOutcome_box_and_date_witness:
  "handleUpdateWordProgress 1000 [1] True
     [\<lparr>id' = [1], word = units ''cat'', translation = [], context' = [], definition' = None,
       synonyms = None, timestamp = 0, leitnerBox = 5, nextReview = Num 0\<rparr>]
   = [\<lparr>id' = [1], word = units ''cat'', translation = [], context' = [], definition' = None,
       synonyms = None, timestamp = 0, leitnerBox = 5, nextReview = Num 2592001000\<rparr>]"
  using recordOutcome_box_and_date
    [of "\<lparr>id' = [1], word = units ''cat'', translation = [], context' = [], definition' = None,
          synonyms = None, timestamp = 0, leitnerBox = 5, nextReview = Num 0\<rparr>"
        "[1]" 1000 True "[]" "[]"]
  by (simp add: recordOutcome_def intervalDays_def handleUpdateWordProgress_def)

section \<open>Tokenizer: round trip\<close>

lemma split_ws_step:
  assumes "dropWhile (\<lambda>c. \<not> isWhiteSpace c) s \<noteq> []"
  shows "split_ws s =
           takeWhile (\<lambda>c. \<not> isWhiteSpace c) s
           # takeWhile isWhiteSpace (dropWhile (\<lambda>c. \<not> isWhiteSpace c) s)
           # split_ws (dropWhile isWhiteSpace (dropWhile (\<lambda>c. \<not> isWhiteSpace c) s))"
  using assms split_ws.simps [of s] by (simp only: if_False)

lemma split_ws_last:
  assumes "dropWhile (\<lambda>c. \<not> isWhiteSpace c) s = []"
  shows "split_ws s = [s]"
  using assms split_ws.simps [of s] by (simp only: simp_thms if_True)

lemma concat_split_ws: "concat (split_ws s) = s"
proof (induction s rule: split_ws.induct)
  case (1 s)
  let ?r = "dropWhile (\<lambda>c. \<not> isWhiteSpace c) s"
  show ?case
  proof (cases "?r = []")
    case True
    then show ?thesis by (simp only: split_ws_last concat.simps append_Nil2)
  next
    case False
    have "concat (split_ws s) =
            takeWhile (\<lambda>c. \<not> isWhiteSpace c) s
            @ takeWhile isWhiteSpace ?r @ concat (split_ws (dropWhile isWhiteSpace ?r))"
      by (simp only: split_ws_step [OF False] concat.simps)
    also have "\<dots> = takeWhile (\<lambda>c. \<not> isWhiteSpace c) s @ takeWhile isWhiteSpace ?r @ dropWhile isWhiteSpace ?r"
      by (simp only: "1.IH" [OF False])
    also have "\<dots> = s"
      by (simp only: takeWhile_dropWhile_id)
    finally show ?thesis .
  qed
qed

lemma textS_toSegment: "textS (toSegment lower segment i) = segment"
  by (simp add: toSegment_def)

lemma map_textS_segments:
  "map textS (map (\<lambda>(i, segment). toSegment lower segment i) (enumerate n xs)) = xs"
  by (induction xs arbitrary: n) (simp_all add: textS_toSegment)

text \<open>
  Claim C3. Concatenating the \<open>text\<close> fields of the segments that
  \<^verbatim>\<open>splitParagraphIntoWords\<close> produces, in order, gives back the paragraph, for every
  paragraph (and whatever the lower-casing of the keys does).
\<close>

theorem tokenizer_round_trip:
  "concat (map textS (splitParagraphIntoWords lower text)) = text"
  by (simp only: splitParagraphIntoWords_def map_textS_segments concat_split_ws)

theorem tokenizer_round_trip_witness:
  "map textS (splitParagraphIntoWords toLowerCase (units ''a  b's. ''))
     = [units ''a'', units ''  '', units ''b's.'', units '' '', []]
   \<and> concat [units ''a'', units ''  '', units ''b's.'', units '' '', []] = units ''a  b's. ''"
  using tokenizer_round_trip [of toLowerCase "units ''a  b's. ''"]
  by (simp add: splitParagraphIntoWords_def units_def split_ws.simps isWhiteSpace_def toSegment_def)

section \<open>Normalization of lookup keys\<close>

lemma lowerUnit_fixed: "d \<in> set (lowerUnit c) \<Longrightarrow> lowerUnit d = [d]"
  by (auto simp: lowerUnit_def split: if_splits)

lemma toLowerCase_fixed: "(\<And>d. d \<in> set t \<Longrightarrow> lowerUnit d = [d]) \<Longrightarrow> toLowerCase t = t"
  by (induction t) (simp_all add: toLowerCase_def)

lemma set_toLowerCase_fixed: "d \<in> set (toLowerCase s) \<Longrightarrow> lowerUnit d = [d]"
  by (auto simp: toLowerCase_def dest: lowerUnit_fixed)

lemma toLowerCase_idem: "toLowerCase (toLowerCase s) = toLowerCase s"
  by (rule toLowerCase_fixed) (rule set_toLowerCase_fixed)

lemma set_replacePossessive: "set (replacePossessive s) \<subseteq> set s"
  by (auto simp: replacePossessive_def dest: in_set_takeD)

lemma set_replaceOuter: "set (replaceOuter s) \<subseteq> set s"
proof
  fix x
  assume "x \<in> set (replaceOuter s)"
  then have "x \<in> set (dropWhile (\<lambda>c. \<not> isWordChar c) (rev (dropWhile (\<lambda>c. \<not> isWordChar c) s)))"
    by (simp add: replaceOuter_def)
  then have "x \<in> set (rev (dropWhile (\<lambda>c. \<not> isWordChar c) s))"
    by (rule set_dropWhileD)
  then have "x \<in> set (dropWhile (\<lambda>c. \<not> isWordChar c) s)"
    by simp
  then show "x \<in> set s"
    by (rule set_dropWhileD)
qed

lemma set_cleanWord: "set (cleanWord toLowerCase w) \<subseteq> set (toLowerCase w)"
  unfolding cleanWord_def using set_replacePossessive set_replaceOuter by blast

lemma toLowerCase_cleanWord: "toLowerCase (cleanWord toLowerCase w) = cleanWord toLowerCase w"
  using set_cleanWord set_toLowerCase_fixed by (intro toLowerCase_fixed) blast

lemma dropWhile_hd_id: "xs = [] \<or> \<not> P (hd xs) \<Longrightarrow> dropWhile P xs = xs"
  by (cases xs) auto

lemma replaceOuter_id:
  assumes "s = [] \<or> (isWordChar (hd s) \<and> isWordChar (last s))"
  shows "replaceOuter s = s"
proof -
  have "dropWhile (\<lambda>c. \<not> isWordChar c) s = s"
    using assms by (intro dropWhile_hd_id) auto
  moreover have "dropWhile (\<lambda>c. \<not> isWordChar c) (rev s) = rev s"
    using assms by (intro dropWhile_hd_id) (auto simp: hd_rev)
  ultimately show ?thesis
    by (simp add: replaceOuter_def)
qed

lemma replaceOuter_ends:
  "replaceOuter s = [] \<or> (isWordChar (hd (replaceOuter s)) \<and> isWordChar (last (replaceOuter s)))"
proof (cases "replaceOuter s = []")
  case True
  then show ?thesis by simp
next
  case False
  let ?P = "\<lambda>c. \<not> isWordChar c"
  let ?y = "dropWhile ?P s"
  let ?z = "dropWhile ?P (rev ?y)"
  have n: "replaceOuter s = rev ?z"
    by (simp add: replaceOuter_def)
  with False have z: "?z \<noteq> []"
    by simp
  then have "isWordChar (hd ?z)"
    using hd_dropWhile [of ?P "rev ?y"] by simp
  then have l: "isWordChar (last (replaceOuter s))"
    using z by (simp add: n last_rev)
  have "rev ?y = takeWhile ?P (rev ?y) @ ?z"
    by simp
  then have "?y = rev ?z @ rev (takeWhile ?P (rev ?y))"
    by (metis rev_append rev_rev_ident)
  then have "hd ?y = hd (rev ?z)"
    using z by (metis hd_append2 rev_is_Nil_conv)
  moreover have "?y \<noteq> []"
  proof
    assume "?y = []"
    then have "?z = []"
      by (simp only: rev.simps dropWhile.simps)
    with z show False ..
  qed
  then have "isWordChar (hd ?y)"
    using hd_dropWhile [of ?P s] by simp
  ultimately have "isWordChar (hd (replaceOuter s))"
    by (simp add: n)
  with l show ?thesis by simp
qed

lemma replaceOuter_idem: "replaceOuter (replaceOuter s) = replaceOuter s"
  by (rule replaceOuter_id) (rule replaceOuter_ends)

lemma length_replaceOuter: "length (replaceOuter s) \<le> length s"
proof -
  have "length (replaceOuter s) \<le> length (dropWhile (\<lambda>c. \<not> isWordChar c) s)"
    unfolding replaceOuter_def length_rev using length_dropWhile_le [of _ "rev (dropWhile (\<lambda>c. \<not> isWordChar c) s)"]
    by simp
  also have "\<dots> \<le> length s"
    by (rule length_dropWhile_le)
  finally show ?thesis .
qed

lemma cleanWord_ends:
  "cleanWord toLowerCase w = [] \<or> (isWordChar (hd (cleanWord toLowerCase w)) \<and> isWordChar (last (cleanWord toLowerCase w)))"
  unfolding cleanWord_def by (rule replaceOuter_ends)

text \<open>
  Claim C4, as amended. Normalizing a normalized key gives the key back exactly when the key
  does not itself end in a possessive marker (an apostrophe or a right single quotation mark,
  followed by \<open>s\<close>). The marker is removed before the punctuation around the word, so a
  possessive followed by punctuation keeps its marker in the key, and a second normalization
  removes it.
\<close>

theorem cleanWord_idempotent_iff:
  "cleanWord toLowerCase (cleanWord toLowerCase w) = cleanWord toLowerCase w \<longleftrightarrow> \<not> endsPossessive (cleanWord toLowerCase w)"
proof (cases "endsPossessive (cleanWord toLowerCase w)")
  case True
  let ?n = "cleanWord toLowerCase w"
  have "2 \<le> length ?n"
    using True by (simp add: endsPossessive_def)
  moreover have "cleanWord toLowerCase ?n = replaceOuter (take (length ?n - 2) ?n)"
    using True by (simp add: cleanWord_def [of toLowerCase ?n] toLowerCase_cleanWord replacePossessive_def)
  moreover have "length (replaceOuter (take (length ?n - 2) ?n)) \<le> length ?n - 2"
    using length_replaceOuter [of "take (length ?n - 2) ?n"] by simp
  ultimately have "length (cleanWord toLowerCase ?n) < length ?n"
    by simp
  then have "cleanWord toLowerCase ?n \<noteq> ?n"
    by auto
  with True show ?thesis by simp
next
  case False
  let ?n = "cleanWord toLowerCase w"
  have "cleanWord toLowerCase ?n = replaceOuter ?n"
    using False by (simp add: cleanWord_def [of toLowerCase ?n] toLowerCase_cleanWord replacePossessive_def)
  also have "\<dots> = ?n"
    by (rule replaceOuter_id) (rule cleanWord_ends)
  finally show ?thesis
    using False by simp
qed

text \<open>
  Claim C4 as stated (normalization is idempotent on every string) fails on a possessive
  followed by a full stop.
\<close>

theorem cleanWord_not_idempotent:
  "cleanWord toLowerCase (units ''dog's.'') = units ''dog's''
   \<and> cleanWord toLowerCase (cleanWord toLowerCase (units ''dog's.'')) = units ''dog''
   \<and> cleanWord toLowerCase (cleanWord toLowerCase (units ''dog's.'')) \<noteq> cleanWord toLowerCase (units ''dog's.'')"
  by (simp add: cleanWord_def toLowerCase_def lowerUnit_def replacePossessive_def
      endsPossessive_def replaceOuter_def isWordChar_def units_def)

theorem cleanWord_idempotent_iff_witness:
  "cleanWord toLowerCase (cleanWord toLowerCase (units ''The,'')) = cleanWord toLowerCase (units ''The,'')
   \<and> cleanWord toLowerCase (units ''The,'') = units ''the''
   \<and> cleanWord toLowerCase (cleanWord toLowerCase (units ''dog's.'')) \<noteq> cleanWord toLowerCase (units ''dog's.'')"
  using cleanWord_idempotent_iff [of "units ''The,''"] cleanWord_idempotent_iff [of "units ''dog's.''"]
  by (simp add: cleanWord_def toLowerCase_def lowerUnit_def replacePossessive_def
      endsPossessive_def replaceOuter_def isWordChar_def units_def)

section \<open>Vocabulary store: one entry per key\<close>

lemma word_updateWord: "word (updateWord now i success w) = word w"
  by (simp add: updateWord_def Let_def)

lemma keys_handleUpdateWordProgress:
  "map (\<lambda>w. lower (word w)) (handleUpdateWordProgress now i success st)
     = map (\<lambda>w. lower (word w)) st"
  by (simp add: handleUpdateWordProgress_def word_updateWord comp_def)

lemma distinct_keys_handleSaveWord:
  assumes "distinct (map (\<lambda>w. lower (word w)) st)"
  shows "distinct (map (\<lambda>w. lower (word w)) (handleSaveWord lower c st))"
  using assms by (auto simp: handleSaveWord_def list_ex_iff)

lemma distinct_keys_onDeleteWord:
  assumes "distinct (map (\<lambda>w. lower (word w)) st)"
  shows "distinct (map (\<lambda>w. lower (word w)) (onDeleteWord i st))"
  using assms unfolding onDeleteWord_def by (rule distinct_map_filter)

lemma reachableStore_distinct_keys:
  "reachableStore lower st \<Longrightarrow> distinct (map (\<lambda>w. lower (word w)) st)"
proof (induction rule: reachableStore.induct)
  case empty
  show ?case by simp
next
  case (save st w)
  then show ?case by (simp only: distinct_keys_handleSaveWord)
next
  case (progress st now i success)
  then show ?case by (simp only: keys_handleUpdateWordProgress)
next
  case (delete st i)
  then show ?case by (simp only: distinct_keys_onDeleteWord)
qed

lemma filter_key_single:
  assumes "distinct (map f xs)" and "y \<in> set xs"
  shows "length (filter (\<lambda>x. f x = f y) xs) = 1"
  using assms
proof (induction xs)
  case Nil
  then show ?case by simp
next
  case (Cons x xs)
  show ?case
  proof (cases "f x = f y")
    case True
    with Cons.prems have "\<forall>z \<in> set xs. f z \<noteq> f y"
      by (metis distinct.simps(2) image_eqI list.simps(9) set_map)
    then have "filter (\<lambda>x. f x = f y) xs = []"
      by (simp add: filter_empty_conv)
    with True show ?thesis by simp
  next
    case False
    with Cons.prems have "y \<in> set xs" by auto
    with Cons.IH Cons.prems False show ?thesis by simp
  qed
qed

lemma handleSaveWord_same_key:
  assumes "lower (word a) = lower (word b)"
  shows "handleSaveWord lower b (handleSaveWord lower a st) = handleSaveWord lower a st"
  using assms by (auto simp: handleSaveWord_def list_ex_iff)

lemma handleSaveWord_has_key:
  "\<exists>w \<in> set (handleSaveWord lower a st). lower (word w) = lower (word a)"
  by (auto simp: handleSaveWord_def list_ex_iff)

text \<open>
  Claim C5. \<^verbatim>\<open>handleSaveWord\<close> leaves the store as it is when an entry with the same key,
  compared after \<^verbatim>\<open>toLowerCase\<close>, exists, and appends the candidate at the end otherwise.
  Adding two candidates with matching keys adds the first one only, and leaves exactly one
  entry of that key in a store the application can hold. Such a store never holds two entries
  with the same key, case ignored. The lower-casing is the argument \<open>lower\<close>: the statement
  holds for every function in its place, so for the built-in on every string.
\<close>

theorem handleSaveWord_dedup:
  "(list_ex (\<lambda>w. lower (word w) = lower (word c)) st \<longrightarrow> handleSaveWord lower c st = st)
   \<and> (\<not> list_ex (\<lambda>w. lower (word w) = lower (word c)) st
        \<longrightarrow> handleSaveWord lower c st = st @ [c])
   \<and> (lower (word a) = lower (word b)
        \<longrightarrow> handleSaveWord lower b (handleSaveWord lower a st) = handleSaveWord lower a st)
   \<and> (lower (word a) = lower (word b)
        \<and> \<not> list_ex (\<lambda>w. lower (word w) = lower (word a)) st
        \<longrightarrow> handleSaveWord lower b (handleSaveWord lower a st) = st @ [a])
   \<and> (reachableStore lower st \<and> lower (word a) = lower (word b)
        \<longrightarrow> length (filter (\<lambda>w. lower (word w) = lower (word a))
                      (handleSaveWord lower b (handleSaveWord lower a st))) = 1)
   \<and> (reachableStore lower st \<longrightarrow> distinct (map (\<lambda>w. lower (word w)) st))"
proof (intro conjI impI)
  assume "list_ex (\<lambda>w. lower (word w) = lower (word c)) st"
  then show "handleSaveWord lower c st = st"
    by (simp add: handleSaveWord_def)
next
  assume "\<not> list_ex (\<lambda>w. lower (word w) = lower (word c)) st"
  then show "handleSaveWord lower c st = st @ [c]"
    by (simp add: handleSaveWord_def)
next
  assume "lower (word a) = lower (word b)"
  then show "handleSaveWord lower b (handleSaveWord lower a st) = handleSaveWord lower a st"
    by (rule handleSaveWord_same_key)
next
  assume "lower (word a) = lower (word b)
        \<and> \<not> list_ex (\<lambda>w. lower (word w) = lower (word a)) st"
  then show "handleSaveWord lower b (handleSaveWord lower a st) = st @ [a]"
    by (auto simp: handleSaveWord_def list_ex_iff)
next
  assume r: "reachableStore lower st \<and> lower (word a) = lower (word b)"
  then have eq: "handleSaveWord lower b (handleSaveWord lower a st) = handleSaveWord lower a st"
    by (simp add: handleSaveWord_same_key)
  from r have "reachableStore lower (handleSaveWord lower a st)"
    by (simp add: reachableStore.save)
  then have d: "distinct (map (\<lambda>w. lower (word w)) (handleSaveWord lower a st))"
    by (rule reachableStore_distinct_keys)
  obtain w where w: "w \<in> set (handleSaveWord lower a st)" "lower (word w) = lower (word a)"
    using handleSaveWord_has_key by blast
  from filter_key_single [OF d w(1)] w(2)
  show "length (filter (\<lambda>w. lower (word w) = lower (word a))
                      (handleSaveWord lower b (handleSaveWord lower a st))) = 1"
    unfolding eq by simp
next
  assume "reachableStore lower st"
  then show "distinct (map (\<lambda>w. lower (word w)) st)"
    by (rule reachableStore_distinct_keys)
qed

theorem handleSaveWord_dedup_witness:
  "handleSaveWord toLowerCase
     \<lparr>id' = [2], word = units ''cat'', translation = [], context' = [], definition' = None,
       synonyms = None, timestamp = 0, leitnerBox = 0, nextReview = Num 0\<rparr>
     (handleSaveWord toLowerCase
        \<lparr>id' = [1], word = units ''Cat'', translation = [], context' = [], definition' = None,
          synonyms = None, timestamp = 0, leitnerBox = 0, nextReview = Num 0\<rparr> [])
   = [\<lparr>id' = [1], word = units ''Cat'', translation = [], context' = [], definition' = None,
        synonyms = None, timestamp = 0, leitnerBox = 0, nextReview = Num 0\<rparr>]"
  using handleSaveWord_dedup
    [of toLowerCase
        "\<lparr>id' = [1], word = units ''Cat'', translation = [], context' = [], definition' = None,
          synonyms = None, timestamp = 0, leitnerBox = 0, nextReview = Num 0\<rparr>"
        "[]"
        "\<lparr>id' = [1], word = units ''Cat'', translation = [], context' = [], definition' = None,
          synonyms = None, timestamp = 0, leitnerBox = 0, nextReview = Num 0\<rparr>"
        "\<lparr>id' = [2], word = units ''cat'', translation = [], context' = [], definition' = None,
          synonyms = None, timestamp = 0, leitnerBox = 0, nextReview = Num 0\<rparr>"]
  by (simp add: units_def toLowerCase_def lowerUnit_def handleSaveWord_def)

section \<open>Quiz session\<close>

lemma handleSelectAnswer_answered: "isAnswered v \<Longrightarrow> handleSelectAnswer idx v = Inr v"
  by (simp add: handleSelectAnswer_def)

lemma handleSelectAnswer_accepted:
  assumes "\<not> isAnswered v" and "0 \<le> currentQIndex v"
    and "currentQIndex v < int (length (questions v))"
  shows "handleSelectAnswer idx v =
           Inr (v\<lparr>selectedOption := Some idx, isAnswered := True,
                  score := score v + (if idx = correctAnswerIndex (questions v ! nat (currentQIndex v))
                                      then 1 else 0),
                  autoNextTimeoutRef := True\<rparr>)"
  using assms by (simp add: handleSelectAnswer_def)

text \<open>
  Claim C8. In stage \<open>PLAYING\<close> an answer on an item already answered leaves the whole
  state, score and selection included, as it is; an answer on an item not yet answered is
  accepted, records the option, adds 1 to the score exactly when the option is the item's
  \<open>correctAnswerIndex\<close>, and makes every further answer before the next advance a no-op. A
  session of three items answered right, wrong, right and advanced past the last item ends
  in stage \<open>RESULT\<close> with score 2 of 3 questions.
\<close>

theorem answer_once_and_score:
  "(isAnswered v \<longrightarrow> handleSelectAnswer idx v = Inr v)
   \<and> (\<not> isAnswered v \<and> 0 \<le> currentQIndex v \<and> currentQIndex v < int (length (questions v))
        \<longrightarrow> (\<exists>v'. handleSelectAnswer idx v = Inr v' \<and> isAnswered v'
                  \<and> selectedOption v' = Some idx
                  \<and> score v' = score v
                       + (if idx = correctAnswerIndex (questions v ! nat (currentQIndex v))
                          then 1 else 0)
                  \<and> (\<forall>idx'. handleSelectAnswer idx' v' = Inr v')))
   \<and> (startTimeout v \<and> questions v = [q1, q2, q3] \<and> a1 = correctAnswerIndex q1
        \<and> a2 \<noteq> correctAnswerIndex q2 \<and> a3 = correctAnswerIndex q3
        \<longrightarrow> (\<exists>v'. run [Answer a1, Advance, Answer a2, Advance, Answer a3, Advance]
                       (startTimeoutFired v) = Inr v'
                  \<and> stage v' = RESULT \<and> score v' = 2 \<and> length (questions v') = 3))"
proof (intro conjI impI)
  assume "isAnswered v"
  then show "handleSelectAnswer idx v = Inr v"
    by (rule handleSelectAnswer_answered)
next
  assume a: "\<not> isAnswered v \<and> 0 \<le> currentQIndex v \<and> currentQIndex v < int (length (questions v))"
  let ?v' = "v\<lparr>selectedOption := Some idx, isAnswered := True,
                  score := score v + (if idx = correctAnswerIndex (questions v ! nat (currentQIndex v))
                                      then 1 else 0),
                  autoNextTimeoutRef := True\<rparr>"
  have "handleSelectAnswer idx v = Inr ?v'"
    using a by (intro handleSelectAnswer_accepted) simp_all
  moreover have "\<forall>idx'. handleSelectAnswer idx' ?v' = Inr ?v'"
    by (simp add: handleSelectAnswer_answered)
  ultimately show "\<exists>v'. handleSelectAnswer idx v = Inr v' \<and> isAnswered v'
                  \<and> selectedOption v' = Some idx
                  \<and> score v' = score v
                       + (if idx = correctAnswerIndex (questions v ! nat (currentQIndex v))
                          then 1 else 0)
                  \<and> (\<forall>idx'. handleSelectAnswer idx' v' = Inr v')"
    by simp
next
  assume s: "startTimeout v \<and> questions v = [q1, q2, q3] \<and> a1 = correctAnswerIndex q1
        \<and> a2 \<noteq> correctAnswerIndex q2 \<and> a3 = correctAnswerIndex q3"
  then show "\<exists>v'. run [Answer a1, Advance, Answer a2, Advance, Answer a3, Advance]
                       (startTimeoutFired v) = Inr v'
                  \<and> stage v' = RESULT \<and> score v' = 2 \<and> length (questions v') = 3"
    by (simp add: startTimeoutFired_def handleSelectAnswer_def nextQuestion_def)
qed

theorem answer_once_and_score_witness:
  "run [Answer 0, Advance, Answer 0, Advance, Answer 2, Advance]
     (startTimeoutFired
        \<lparr>stage = LOADING, selectedPassageId = 1,
         questions =
           [\<lparr>wordQ = units ''arid'', question = [], options = [], correctAnswerIndex = 0,
              explanation = [], synonymsQ = None\<rparr>,
            \<lparr>wordQ = units ''vast'', question = [], options = [], correctAnswerIndex = 1,
              explanation = [], synonymsQ = None\<rparr>,
            \<lparr>wordQ = units ''keen'', question = [], options = [], correctAnswerIndex = 2,
              explanation = [], synonymsQ = None\<rparr>],
         currentQIndex = 0, score = 0, selectedOption = None, isAnswered = False,
         autoNextTimeoutRef = False, startTimeout = True\<rparr>)
   = Inr \<lparr>stage = RESULT, selectedPassageId = 1,
         questions =
           [\<lparr>wordQ = units ''arid'', question = [], options = [], correctAnswerIndex = 0,
              explanation = [], synonymsQ = None\<rparr>,
            \<lparr>wordQ = units ''vast'', question = [], options = [], correctAnswerIndex = 1,
              explanation = [], synonymsQ = None\<rparr>,
            \<lparr>wordQ = units ''keen'', question = [], options = [], correctAnswerIndex = 2,
              explanation = [], synonymsQ = None\<rparr>],
         currentQIndex = 2, score = 2, selectedOption = Some 2, isAnswered = True,
         autoNextTimeoutRef = False, startTimeout = False\<rparr>"
  using answer_once_and_score
    [of "\<lparr>stage = LOADING, selectedPassageId = 1,
         questions =
           [\<lparr>wordQ = units ''arid'', question = [], options = [], correctAnswerIndex = 0,
              explanation = [], synonymsQ = None\<rparr>,
            \<lparr>wordQ = units ''vast'', question = [], options = [], correctAnswerIndex = 1,
              explanation = [], synonymsQ = None\<rparr>,
            \<lparr>wordQ = units ''keen'', question = [], options = [], correctAnswerIndex = 2,
              explanation = [], synonymsQ = None\<rparr>],
         currentQIndex = 0, score = 0, selectedOption = None, isAnswered = False,
         autoNextTimeoutRef = False, startTimeout = True\<rparr>"
        0
        "\<lparr>wordQ = units ''arid'', question = [], options = [], correctAnswerIndex = 0,
              explanation = [], synonymsQ = None\<rparr>"
        "\<lparr>wordQ = units ''vast'', question = [], options = [], correctAnswerIndex = 1,
              explanation = [], synonymsQ = None\<rparr>"
        "\<lparr>wordQ = units ''keen'', question = [], options = [], correctAnswerIndex = 2,
              explanation = [], synonymsQ = None\<rparr>"
        0 0 2]
  by (simp add: startTimeoutFired_def handleSelectAnswer_def nextQuestion_def)

lemma session_invariant:
  "session v n \<Longrightarrow>
     0 \<le> score v \<and> score v \<le> int n \<and> 0 \<le> currentQIndex v
     \<and> int n \<le> currentQIndex v + (if isAnswered v then 1 else 0)
     \<and> (if questions v = [] then currentQIndex v = 0 \<and> \<not> isAnswered v
         else currentQIndex v < int (length (questions v)))"
proof (induction rule: session.induct)
  case (start v)
  then show ?case
    by (simp add: startTimeoutFired_def)
next
  case (answer v n idx v')
  show ?case
  proof (cases "isAnswered v")
    case True
    with answer.hyps(3) have "v' = v"
      by (simp add: handleSelectAnswer_def)
    with True answer.IH show ?thesis
      by (auto split: if_splits)
  next
    case False
    with answer.hyps(3) have inr: "0 \<le> currentQIndex v \<and> currentQIndex v < int (length (questions v))"
      by (auto simp: handleSelectAnswer_def split: if_splits)
    with False answer.hyps(3)
    have v': "v' = v\<lparr>selectedOption := Some idx, isAnswered := True,
                  score := score v + (if idx = correctAnswerIndex (questions v ! nat (currentQIndex v))
                                      then 1 else 0),
                  autoNextTimeoutRef := True\<rparr>"
      by (simp add: handleSelectAnswer_accepted)
    from answer.IH False inr show ?thesis
      unfolding v' by (auto split: if_splits)
  qed
next
  case (advance v n)
  from advance.IH show ?case
    by (auto simp: nextQuestion_def split: if_splits)
qed

text \<open>
  Claim C9. In every state of a quiz session, reached from the start by answers and
  advances in any order, the score is at least 0 and at most the number of items answered so
  far, which is at most the number of questions; in stage \<open>PLAYING\<close> with a non-empty
  question list the index of the current question lies between 0 and the length minus one;
  in stage \<open>RESULT\<close> the score is at most the number of questions.
\<close>

theorem session_bounds:
  assumes "session v n"
  shows "0 \<le> score v \<and> score v \<le> int n \<and> n \<le> length (questions v)
         \<and> (stage v = PLAYING \<and> questions v \<noteq> []
              \<longrightarrow> 0 \<le> currentQIndex v \<and> currentQIndex v \<le> int (length (questions v)) - 1)
         \<and> (stage v = RESULT \<longrightarrow> score v \<le> int (length (questions v)))"
proof -
  note inv = session_invariant [OF assms]
  have n: "n \<le> length (questions v)"
    using inv by (cases "questions v = []") (auto split: if_splits)
  with inv show ?thesis
    by (auto split: if_splits)
qed

theorem session_bounds_witness:
  "session
     \<lparr>stage = PLAYING, selectedPassageId = 1,
      questions = [\<lparr>wordQ = units ''arid'', question = [], options = [],
                    correctAnswerIndex = 0, explanation = [], synonymsQ = None\<rparr>],
      currentQIndex = 0, score = 1, selectedOption = Some 0, isAnswered = True,
      autoNextTimeoutRef = True, startTimeout = False\<rparr> 1
   \<and> (1::int) \<le> int 1 \<and> (1::nat) \<le> length [\<lparr>wordQ = units ''arid'', question = [], options = [],
                    correctAnswerIndex = 0, explanation = [], synonymsQ = None\<rparr>]"
proof -
  let ?q = "\<lparr>wordQ = units ''arid'', question = [], options = [],
             correctAnswerIndex = 0, explanation = [], synonymsQ = None\<rparr>"
  let ?v0 = "\<lparr>stage = LOADING, selectedPassageId = 1, questions = [?q],
              currentQIndex = 0, score = 0, selectedOption = None, isAnswered = False,
              autoNextTimeoutRef = False, startTimeout = True\<rparr>"
  let ?v1 = "\<lparr>stage = PLAYING, selectedPassageId = 1, questions = [?q],
              currentQIndex = 0, score = 1, selectedOption = Some 0, isAnswered = True,
              autoNextTimeoutRef = True, startTimeout = False\<rparr>"
  have "session (startTimeoutFired ?v0) 0"
    by (rule session.start) simp
  then have "session ?v1 (if isAnswered (startTimeoutFired ?v0) then 0 else Suc 0)"
    by (rule session.answer [where idx = 0])
      (simp_all add: startTimeoutFired_def handleSelectAnswer_def)
  then have s: "session ?v1 1"
    by (simp add: startTimeoutFired_def)
  from session_bounds [OF s] s show ?thesis
    by simp
qed

section \<open>Quiz start without a pre-baked list\<close>

lemma run_outside_PLAYING: "stage v \<noteq> PLAYING \<Longrightarrow> run acts v = Inr v"
proof (induction acts)
  case Nil
  show ?case by simp
next
  case (Cons a acts)
  then have "act a v = Inr v"
    by (cases a) simp_all
  with Cons show ?case by simp
qed

lemma generateQuiz_unknown_passage:
  "find (\<lambda>p. idP p = selectedPassageId v) passages = None \<Longrightarrow> generateQuiz shuffle passages v = v"
  by (simp add: generateQuiz_def)

text \<open>
  Claim C7 says that starting a quiz on a passage without a pre-baked item list never leaves
  stage \<open>SETUP\<close> silently. The code checks for the list after it has set the stage: the
  view moves to \<open>LOADING\<close>, no timer is set, and no timer callback or user action changes
  the state again.
\<close>

theorem generateQuiz_without_offlineQuiz:
  assumes "find (\<lambda>p. idP p = selectedPassageId v) passages = Some p"
    and "offlineQuiz p = None" and "stage v = SETUP" and "\<not> startTimeout v"
  shows "generateQuiz shuffle passages v = v\<lparr>stage := LOADING\<rparr>
         \<and> stage (generateQuiz shuffle passages v) \<noteq> SETUP
         \<and> startTimeoutFired (generateQuiz shuffle passages v) = generateQuiz shuffle passages v
         \<and> run acts (generateQuiz shuffle passages v) = Inr (generateQuiz shuffle passages v)"
proof -
  have g: "generateQuiz shuffle passages v = v\<lparr>stage := LOADING\<rparr>"
    using assms(1,2) by (simp add: generateQuiz_def)
  have "run acts (v\<lparr>stage := LOADING\<rparr>) = Inr (v\<lparr>stage := LOADING\<rparr>)"
    by (rule run_outside_PLAYING) simp
  then show ?thesis
    unfolding g using assms(4) by (simp add: startTimeoutFired_def)
qed

theorem generateQuiz_without_offlineQuiz_witness:
  "generateQuiz (\<lambda>qs. qs)
     [\<lparr>idP = 1, title = units ''Deserts'', content = [], questionsP = [],
       questionInstruction = [], offlineQuiz = None\<rparr>]
     \<lparr>stage = SETUP, selectedPassageId = 1, questions = [], currentQIndex = 0, score = 0,
      selectedOption = None, isAnswered = False, autoNextTimeoutRef = False,
      startTimeout = False\<rparr>
   = \<lparr>stage = LOADING, selectedPassageId = 1, questions = [], currentQIndex = 0, score = 0,
      selectedOption = None, isAnswered = False, autoNextTimeoutRef = False,
      startTimeout = False\<rparr>"
  using generateQuiz_without_offlineQuiz
    [of "\<lparr>stage = SETUP, selectedPassageId = 1, questions = [], currentQIndex = 0, score = 0,
          selectedOption = None, isAnswered = False, autoNextTimeoutRef = False,
          startTimeout = False\<rparr>"
        "[\<lparr>idP = 1, title = units ''Deserts'', content = [], questionsP = [],
           questionInstruction = [], offlineQuiz = None\<rparr>]"
        "\<lparr>idP = 1, title = units ''Deserts'', content = [], questionsP = [],
           questionInstruction = [], offlineQuiz = None\<rparr>"
        "\<lambda>qs. qs" "[]"]
  by simp

section \<open>Review session and due words\<close>

lemma due_member: "w \<in> set (due now words) \<longleftrightarrow> w \<in> set words \<and> jsle (nextReview w) now"
  by (simp add: due_def)

text \<open>
  Claim C2 says that a review session surfaces exactly the due words. The view computes the
  due words, in store order, for the count in its header only; START REVIEW fills the session
  with a permutation of the whole store, so a word whose next review lies in the future is
  not among the due words and is in the session.
\<close>

theorem startReview_surfaces_every_word:
  assumes "words \<noteq> []" and "mset (shuffle words) = mset words"
  shows "due now words = filter (\<lambda>w. jsle (nextReview w) now) words
         \<and> isQuizMode (startReview shuffle words v)
         \<and> mset (quizWords (startReview shuffle words v)) = mset words
         \<and> (\<forall>w \<in> set words. \<not> jsle (nextReview w) now
               \<longrightarrow> w \<notin> set (due now words) \<and> w \<in> set (quizWords (startReview shuffle words v)))"
proof -
  have q: "quizWords (startReview shuffle words v) = shuffle words"
    using assms(1) by (simp add: startReview_def)
  have "set (shuffle words) = set words"
    using assms(2) by (rule mset_eq_setD)
  then show ?thesis
    unfolding q using assms by (simp add: due_def startReview_def)
qed

theorem startReview_surfaces_every_word_witness:
  "due 1000
     [\<lparr>id' = [1], word = units ''cat'', translation = [], context' = [], definition' = None,
       synonyms = None, timestamp = 0, leitnerBox = 1, nextReview = Num 86400500\<rparr>] = []
   \<and> card (startReview (\<lambda>ws. ws)
        [\<lparr>id' = [1], word = units ''cat'', translation = [], context' = [], definition' = None,
          synonyms = None, timestamp = 0, leitnerBox = 1, nextReview = Num 86400500\<rparr>]
        \<lparr>isQuizMode = False, quizWords = [], currentIdx = 0, showBack = False\<rparr>)
     = Some \<lparr>id' = [1], word = units ''cat'', translation = [], context' = [],
             definition' = None, synonyms = None, timestamp = 0, leitnerBox = 1,
             nextReview = Num 86400500\<rparr>"
  using startReview_surfaces_every_word
    [of "[\<lparr>id' = [1], word = units ''cat'', translation = [], context' = [], definition' = None,
          synonyms = None, timestamp = 0, leitnerBox = 1, nextReview = Num 86400500\<rparr>]"
        "\<lambda>ws. ws" 1000
        "\<lparr>isQuizMode = False, quizWords = [], currentIdx = 0, showBack = False\<rparr>"]
  by (simp add: due_def startReview_def card_def)

section \<open>Segments without word characters\<close>

lemma toLowerCase_Nil_iff: "toLowerCase x = [] \<longleftrightarrow> x = []"
  by (cases x) (auto simp: toLowerCase_def lowerUnit_def)

lemma lowerUnit_no_wordChar:
  assumes "\<not> isWordChar c" and "c \<noteq> 0x130" and "c \<noteq> 0x212A"
  shows "\<forall>d \<in> set (lowerUnit c). \<not> isWordChar d"
  using assms by (auto simp: lowerUnit_def isWordChar_def)

lemma toLowerCase_no_wordChar:
  assumes "\<forall>c \<in> set seg. \<not> isWordChar c \<and> c \<noteq> 0x130 \<and> c \<noteq> 0x212A"
  shows "\<forall>d \<in> set (toLowerCase seg). \<not> isWordChar d"
  using assms lowerUnit_no_wordChar by (fastforce simp: toLowerCase_def)

lemma replaceOuter_no_wordChar:
  assumes "\<forall>d \<in> set s. \<not> isWordChar d"
  shows "replaceOuter s = []"
proof -
  have d: "dropWhile (\<lambda>c. \<not> isWordChar c) s = []"
    using assms by (induction s) simp_all
  show ?thesis
    unfolding replaceOuter_def d by simp
qed

lemma cleanWord_no_wordChar:
  assumes "\<forall>c \<in> set seg. \<not> isWordChar c \<and> c \<noteq> 0x130 \<and> c \<noteq> 0x212A"
  shows "cleanWord toLowerCase seg = []"
proof -
  have "\<forall>d \<in> set (replacePossessive (toLowerCase seg)). \<not> isWordChar d"
    using toLowerCase_no_wordChar [OF assms] set_replacePossessive by blast
  then show ?thesis
    unfolding cleanWord_def by (rule replaceOuter_no_wordChar)
qed

lemma cleanWord_Nil: "cleanWord toLowerCase [] = []"
  by (simp add: cleanWord_def toLowerCase_def replacePossessive_def endsPossessive_def
      replaceOuter_def)

lemma filter_key_at_most_one:
  "distinct (map f xs) \<Longrightarrow> length (filter (\<lambda>x. f x = k) xs) \<le> 1"
proof (induction xs)
  case Nil
  show ?case by simp
next
  case (Cons x xs)
  show ?case
  proof (cases "f x = k")
    case True
    with Cons.prems have "\<forall>z \<in> set xs. f z \<noteq> k"
      by (metis distinct.simps(2) image_eqI list.simps(9) set_map)
    then have "filter (\<lambda>x. f x = k) xs = []"
      by (simp add: filter_empty_conv)
    with True show ?thesis by simp
  next
    case False
    with Cons show ?thesis by simp
  qed
qed

lemma reachableStore_empty_key:
  assumes "reachableStore toLowerCase st"
  shows "length (filter (\<lambda>w. word w = []) st) \<le> 1"
proof -
  have "filter (\<lambda>w. word w = []) st = filter (\<lambda>w. toLowerCase (word w) = []) st"
    by (simp add: toLowerCase_Nil_iff)
  then show ?thesis
    using filter_key_at_most_one [OF reachableStore_distinct_keys [OF assms], of "[]"] by simp
qed

text \<open>
  Claim C10. A segment that is not white space and holds no Latin or Cyrillic word
  character (no code unit of the class of the pattern, and neither of the two Latin letters
  outside the class whose lower case lies in it, U+0130 and U+212A) is marked \<open>isWord\<close> with
  the empty key; a click on it opens the modal on the empty word; the object the modal saves
  has the empty string as its \<open>word\<close>, with the fallback texts when the dictionary has no
  entry for the empty key; \<^verbatim>\<open>handleSaveWord\<close> appends it unless the store holds an entry
  with the empty key already; and a store the application can hold has at most one entry with
  the empty key.
\<close>

theorem empty_key_segment_saved:
  assumes "trim seg \<noteq> []"
    and "\<forall>c \<in> set seg. \<not> isWordChar c \<and> c \<noteq> 0x130 \<and> c \<noteq> 0x212A"
  shows "toSegment toLowerCase seg i = \<lparr>textS = seg, idS = i, isWord = True, wordS = Some []\<rparr>
         \<and> clickSegment (toSegment toLowerCase seg i) paragraph = Some ([], paragraph)
         \<and> word (newSavedWord toLowerCase dict uuid now1 now2 [] paragraph) = []
         \<and> (dict [] = None \<longrightarrow>
              newSavedWord toLowerCase dict uuid now1 now2 [] paragraph =
                \<lparr>id' = uuid, word = [], translation = fallbackTranslation [],
                 context' = paragraph,
                 definition' = Some (units ''Tap to save and review later.''),
                 synonyms = Some [], timestamp = now1, leitnerBox = 0, nextReview = Num now2\<rparr>)
         \<and> (\<not> list_ex (\<lambda>w. word w = []) st \<longrightarrow>
              handleSaveWord toLowerCase (newSavedWord toLowerCase dict uuid now1 now2 [] paragraph) st
                = st @ [newSavedWord toLowerCase dict uuid now1 now2 [] paragraph])
         \<and> (list_ex (\<lambda>w. word w = []) st \<longrightarrow>
              handleSaveWord toLowerCase (newSavedWord toLowerCase dict uuid now1 now2 [] paragraph) st = st)
         \<and> (reachableStore toLowerCase st \<longrightarrow>
              length (filter (\<lambda>w. word w = []) st) \<le> 1
              \<and> length (filter (\<lambda>w. word w = [])
                   (handleSaveWord toLowerCase (newSavedWord toLowerCase dict uuid now1 now2 [] paragraph) st)) \<le> 1)"
proof -
  have seg: "toSegment toLowerCase seg i = \<lparr>textS = seg, idS = i, isWord = True, wordS = Some []\<rparr>"
    using assms by (simp add: toSegment_def cleanWord_no_wordChar)
  have click: "clickSegment (toSegment toLowerCase seg i) paragraph = Some ([], paragraph)"
    unfolding seg by (simp add: clickSegment_def)
  have w: "word (newSavedWord toLowerCase dict uuid now1 now2 [] paragraph) = []"
    by (simp add: newSavedWord_def cleanWord_Nil split: prod.splits)
  have fb: "dict [] = None \<longrightarrow>
              newSavedWord toLowerCase dict uuid now1 now2 [] paragraph =
                \<lparr>id' = uuid, word = [], translation = fallbackTranslation [],
                 context' = paragraph,
                 definition' = Some (units ''Tap to save and review later.''),
                 synonyms = Some [], timestamp = now1, leitnerBox = 0, nextReview = Num now2\<rparr>"
    by (simp add: newSavedWord_def modalData_def cleanWord_Nil)
  have app: "\<not> list_ex (\<lambda>w. word w = []) st \<longrightarrow>
              handleSaveWord toLowerCase (newSavedWord toLowerCase dict uuid now1 now2 [] paragraph) st
                = st @ [newSavedWord toLowerCase dict uuid now1 now2 [] paragraph]"
    by (simp add: handleSaveWord_def w toLowerCase_Nil_iff toLowerCase_def [of "[]"])
  have noop: "list_ex (\<lambda>w. word w = []) st \<longrightarrow>
              handleSaveWord toLowerCase (newSavedWord toLowerCase dict uuid now1 now2 [] paragraph) st = st"
    by (simp add: handleSaveWord_def w toLowerCase_Nil_iff toLowerCase_def [of "[]"])
  have one: "reachableStore toLowerCase st \<longrightarrow>
              length (filter (\<lambda>w. word w = []) st) \<le> 1
              \<and> length (filter (\<lambda>w. word w = [])
                   (handleSaveWord toLowerCase (newSavedWord toLowerCase dict uuid now1 now2 [] paragraph) st)) \<le> 1"
    using reachableStore_empty_key reachableStore.save by blast
  from seg click w fb app noop one show ?thesis
    by blast
qed

theorem empty_key_segment_saved_witness:
  "toSegment toLowerCase [0x2014] 4 = \<lparr>textS = [0x2014], idS = 4, isWord = True, wordS = Some []\<rparr>
   \<and> handleSaveWord toLowerCase (newSavedWord toLowerCase Map.empty (units ''id-1'') 1000 1000 [] (units ''a -- b'')) []
     = [\<lparr>id' = units ''id-1'', word = [], translation = fallbackTranslation [],
         context' = units ''a -- b'',
         definition' = Some (units ''Tap to save and review later.''),
         synonyms = Some [], timestamp = 1000, leitnerBox = 0, nextReview = Num 1000\<rparr>]"
proof -
  have t: "trim [0x2014] \<noteq> []"
    by (simp add: trim_def isWhiteSpace_def)
  have c: "\<forall>c \<in> set [0x2014::nat]. \<not> isWordChar c \<and> c \<noteq> 0x130 \<and> c \<noteq> 0x212A"
    by (simp add: isWordChar_def)
  from empty_key_segment_saved [OF t c, of 4 "units ''a -- b''" Map.empty "units ''id-1''" 1000 1000 "[]"]
  show ?thesis
    by (simp add: handleSaveWord_def)
qed

section \<open>Loading the saved words\<close>

lemma JSON_parse_Nil: "JSON_parse [] = Inl SyntaxError"
  by (simp add: JSON_parse_def lex.simps)

text \<open>
  Where the initializer gives a list: the empty list when the item is missing or is the empty
  string, and the value that \<^verbatim>\<open>JSON.parse\<close> returns when the stored text is valid JSON.
\<close>

lemma initialSavedWords_missing_or_valid:
  "initialSavedWords None = Inr (JArray [])
   \<and> initialSavedWords (Some []) = Inr (JArray [])
   \<and> (JSON_parse s = Inr v \<longrightarrow> initialSavedWords (Some s) = Inr v)"
proof (intro conjI impI)
  show "initialSavedWords None = Inr (JArray [])"
    by (simp add: initialSavedWords_def)
  show "initialSavedWords (Some []) = Inr (JArray [])"
    by (simp add: initialSavedWords_def)
next
  assume p: "JSON_parse s = Inr v"
  then have "s \<noteq> []"
    using JSON_parse_Nil by auto
  with p show "initialSavedWords (Some s) = Inr v"
    by (simp add: initialSavedWords_def)
qed

lemmas json_eval =
  JSON_parse_def lex.simps units_def isJsonWs_def isDigit_def isNumChar_def isLowerLetter_def
  isNumberLit_def isUnsigned_def isFractionExponent_def isExponent_def keyword_def escape_def
  hexVal_def

text \<open>
  Claim C6 says that the load on start yields the stored list when it is present and valid,
  and an empty list, not a failure, when the stored data is missing or corrupt. The
  initializer falls back to the empty list for a missing item and for the empty string only.
  On a stored text that is not valid JSON, here one cut off in the middle of the list,
  \<^verbatim>\<open>JSON.parse\<close> throws and nothing catches the exception: the result is the
  \<^verbatim>\<open>SyntaxError\<close>, not the empty list.
\<close>

theorem initialSavedWords_corrupt_fails:
  "initialSavedWords (Some (units ''[{\"word\":\"cat\"'')) = Inl SyntaxError
   \<and> initialSavedWords (Some (units ''[{\"word\":\"cat\"'')) \<noteq> Inr (JArray [])
   \<and> initialSavedWords None = Inr (JArray [])
   \<and> initialSavedWords (Some []) = Inr (JArray [])"
  by (simp add: initialSavedWords_def json_eval)

end
